theory Spec2Isabelle
  imports Main "HOL-Library.Word"
begin

section \<open>The key table of keys-ssl.c\<close>

text \<open>
  The file keys-ssl.c declares two static arrays of \<^verbatim>\<open>BN_ULONG\<close> (the limbs of an RSA
  public exponent and of an RSA modulus) and one static table \<^verbatim>\<open>keys[]\<close> of
  \<^verbatim>\<open>struct pubkey\<close>, built with the macros \<^verbatim>\<open>KEY\<close> and \<^verbatim>\<open>KEYS\<close>. It holds no function.
  The embedding follows the declarations one by one.
\<close>

subsection \<open>Limbs and static arrays\<close>

text \<open>
  Modelled from the spec: the typedef \<^verbatim>\<open>BN_ULONG\<close> comes from \<^verbatim>\<open>openssl/bn.h\<close>, which is
  not among the sources. The specification fixes a limb as an unsigned 32-bit integer,
  hence four bytes for \<^verbatim>\<open>sizeof(data[0])\<close>.
\<close>

type_synonym BN_ULONG = "32 word"

definition BN_BYTES :: nat where
  "BN_BYTES = 4"

text \<open>
  A declaration \<^verbatim>\<open>static T a[N] = { c0, c1, ... };\<close> converts every integer constant to
  the element type (for an unsigned type: modulo \<open>2 ^ 32\<close> here) and fills the elements
  that have no initialiser with zero. The constants are kept as they are written, as
  natural numbers, so that the conversion is part of the model.
\<close>

definition static_array :: "nat \<Rightarrow> nat list \<Rightarrow> BN_ULONG list" where
  "static_array N inits = map of_nat inits @ replicate (N - length inits) 0"

definition sizeof_array :: "BN_ULONG list \<Rightarrow> nat" where
  "sizeof_array data = length data * BN_BYTES"

definition e_0_init :: "nat list" where
  "e_0_init = [
    0x00010001
  ]"

definition e_0 :: "BN_ULONG list" where
  "e_0 = static_array 1 e_0_init"

definition n_0_init :: "nat list" where
  "n_0_init = [
    0x16a0d8e1, 0x63a27054, 0xc8ba757b, 0xdc9fca11,
    0xcbcb35e3, 0xb9c06510, 0xba941433, 0x39e3dfeb,
    0x6c1fce9d, 0x7bbae38a, 0xfefabba7, 0x205a5a73,
    0x97839a2e, 0x53ea3e5a, 0x61dc0170, 0xfec8f5b6,
    0xd29a1004, 0xefe311d8, 0xa5156bb8, 0x8c6a92d0,
    0x7a6eb5cc, 0x9067cc76, 0x0bd5b1ff, 0xd103580b,
    0x8f3a2daf, 0x4a563e84, 0x46b0943e, 0xacd7cadb,
    0xebd1e198, 0x5fabb688, 0x5916f173, 0x7e70c1d3,
    0x5d6ca84e, 0xaaa8acc8, 0xe20fd4dc, 0x1685c157,
    0xad933f64, 0xf9e9c9c7, 0xc5f59824, 0xbe6272ed,
    0x53447bd1, 0x585d9a7d, 0x5b3bc30d, 0x011a5b3f,
    0xffbbf0e9, 0xf312b966, 0x482c131b, 0x2203fb37,
    0x0dc38eab, 0x3e7c157d, 0xb39fcc8d, 0xb04de1d6,
    0x07fc0d84, 0x4d9f0137, 0xe13b5ac5, 0xb075a241,
    0x8e56e153, 0x0a9a9d48, 0xf97054eb, 0xf2cff393,
    0x376024f2, 0x2a2ead68, 0x88d35dce, 0xd6579971
  ]"

definition n_0 :: "BN_ULONG list" where
  "n_0 = static_array 64 n_0_init"

subsection \<open>The structs and the macros\<close>

text \<open>
  Modelled from the spec: \<^verbatim>\<open>struct bignum_st\<close> is declared in \<^verbatim>\<open>openssl/bn.h\<close> too. The
  record keeps the two members that the macro \<^verbatim>\<open>KEY\<close> initialises, which are the two
  attributes the specification gives a BigNumber: the limbs \<^verbatim>\<open>d\<close> (in C a pointer to the
  array, here the array's contents) and the limb count \<^verbatim>\<open>top\<close> (an \<^verbatim>\<open>int\<close>; named
  \<open>top_bn\<close> since \<open>top\<close> is the greatest element of a lattice in HOL).
\<close>

record bignum_st =
  d :: "BN_ULONG list"
  top_bn :: int

record pubkey =
  e :: bignum_st
  n :: bignum_st

text \<open>\<^verbatim>\<open>#define KEY(data) { .d = data, .top = sizeof(data)/sizeof(data[0]), }\<close>\<close>

definition KEY :: "BN_ULONG list \<Rightarrow> bignum_st" where
  "KEY data = \<lparr> d = data, top_bn = int (sizeof_array data div BN_BYTES) \<rparr>"

text \<open>\<^verbatim>\<open>#define KEYS(e,n) { KEY(e), KEY(n), }\<close>: positional, so the first goes to \<^verbatim>\<open>e\<close>.\<close>

definition KEYS :: "BN_ULONG list \<Rightarrow> BN_ULONG list \<Rightarrow> pubkey" where
  "KEYS e_data n_data = \<lparr> e = KEY e_data, n = KEY n_data \<rparr>"

definition keys :: "pubkey list" where
  "keys = [
    KEYS e_0 n_0
  ]"

subsection \<open>The value of a limb sequence\<close>

text \<open>
  The file holds no arithmetic on the limbs. What a limb sequence stands for is stated by
  the specification: the integer \<open>value = \<Sum> limbs[i] * 2^(32*i)\<close>, least-significant
  limb first. \<open>bn_sum\<close> follows these words; \<open>bn_value\<close> computes the same number
  by Horner's rule (lemma \<open>bn_value_sum\<close>).
\<close>

fun bn_value :: "BN_ULONG list \<Rightarrow> nat" where
  "bn_value [] = 0"
| "bn_value (x # xs) = unat x + 2 ^ 32 * bn_value xs"

definition bn_sum :: "BN_ULONG list \<Rightarrow> nat" where
  "bn_sum limbs = (\<Sum>i<length limbs. unat (limbs ! i) * 2 ^ (32 * i))"

text \<open>
  Modelled from the spec: the re-encoding of an integer "with the same limb width and
  order" is an operation of the specification's round-trip property; the sources have no
  such function. It writes the \<open>k\<close> lowest base-\<open>2 ^ 32\<close> digits, lowest first.
\<close>

fun bn_encode :: "nat \<Rightarrow> nat \<Rightarrow> BN_ULONG list" where
  "bn_encode 0 v = []"
| "bn_encode (Suc k) v = of_nat (v mod 2 ^ 32) # bn_encode k (v div 2 ^ 32)"

text \<open>
  The bit length of a natural number (0 for 0), and the least number of 32-bit limbs
  that can hold it.
\<close>

fun bit_length :: "nat \<Rightarrow> nat" where
  "bit_length v = (if v = 0 then 0 else Suc (bit_length (v div 2)))"

fun min_limbs :: "nat \<Rightarrow> nat" where
  "min_limbs v = (if v = 0 then 0 else Suc (min_limbs (v div 2 ^ 32)))"

declare bit_length.simps [simp del]
declare min_limbs.simps [simp del]

subsection \<open>The accessors of the key table\<close>

text \<open>
  Modelled from the spec: the sources declare the table and no accessor; the code that
  reads \<^verbatim>\<open>keys[]\<close> is not among them. The specification's contract is
  \<^verbatim>\<open>count() -> integer\<close>, the number of entries, and \<^verbatim>\<open>get(index) -> PublicKey\<close>, the key at
  the zero-based position, failing with \<^verbatim>\<open>IndexOutOfRange\<close> when the index is negative
  or not below the table length. The table is an explicit argument.
\<close>

datatype error = IndexOutOfRange

definition count :: "pubkey list \<Rightarrow> int" where
  "count tbl = int (length tbl)"

definition get :: "pubkey list \<Rightarrow> int \<Rightarrow> error + pubkey" where
  "get tbl index =
     (if index < 0 \<or> index \<ge> count tbl then Inl IndexOutOfRange
      else Inr (tbl ! nat index))"

text \<open>
  Modelled from the spec: a call of an accessor, with the table as the state. The sources
  have no such call; the specification's contract says of \<^verbatim>\<open>get\<close> "No side effects" and of
  \<^verbatim>\<open>count\<close> "Always succeeds", so a call returns its reply and the table it was given.
\<close>

datatype call = Get int | Count

datatype reply = Key "error + pubkey" | Number int

fun step :: "call \<Rightarrow> pubkey list \<Rightarrow> reply \<times> pubkey list" where
  "step (Get index) tbl = (Key (get tbl index), tbl)"
| "step Count tbl = (Number (count tbl), tbl)"

section \<open>Properties\<close>

subsection \<open>The declared arrays\<close>

lemma e_0_limbs: "e_0 = [0x00010001]"
  by (simp add: e_0_def e_0_init_def static_array_def)

lemma length_n_0: "length n_0 = 64"
  by (simp add: n_0_def n_0_init_def static_array_def)

lemma n_0_limbs: "map unat n_0 = n_0_init"
  by (simp add: n_0_def n_0_init_def static_array_def)

lemma e_0_unat: "map unat e_0 = e_0_init"
  by (simp add: e_0_def e_0_init_def static_array_def)

lemma last_n_0: "last n_0 = 0xd6579971"
  by (simp add: n_0_def n_0_init_def static_array_def)

lemma hd_n_0: "hd n_0 = 0x16a0d8e1"
  by (simp add: n_0_def n_0_init_def static_array_def)

lemma n_0_not_Nil: "n_0 \<noteq> []"
  using length_n_0 by auto

lemma last_e_0: "last e_0 = 0x00010001"
  by (simp add: e_0_limbs)

lemma e_0_not_Nil: "e_0 \<noteq> []"
  by (simp add: e_0_limbs)

lemma e_0_ne_n_0: "e_0 \<noteq> n_0"
proof
  assume "e_0 = n_0"
  then have "length e_0 = length n_0" by simp
  then show False by (simp add: e_0_limbs length_n_0)
qed

lemma init_bounds: "c \<in> set e_0_init \<union> set n_0_init \<Longrightarrow> c < 2 ^ 32"
  by (auto simp: e_0_init_def n_0_init_def)

subsection \<open>The table entries\<close>

lemma d_KEY: "d (KEY data) = data"
  by (simp add: KEY_def)

lemma top_KEY: "top_bn (KEY data) = int (length data)"
  by (simp add: KEY_def sizeof_array_def BN_BYTES_def)

lemma keys_entry: "keys ! 0 = \<lparr> e = KEY e_0, n = KEY n_0 \<rparr>"
  by (simp add: keys_def KEYS_def)

lemma keys_bignums:
  "k \<in> set keys \<Longrightarrow> b \<in> {e k, n k} \<Longrightarrow> b = KEY e_0 \<or> b = KEY n_0"
  by (auto simp: keys_def KEYS_def)

subsection \<open>Decoding and re-encoding\<close>

text \<open>
  The value computed by Horner's rule is the sum of the specification, it is below
  \<open>2 ^ (32 * length)\<close>, limb \<open>i\<close> is its digit \<open>i\<close> in base \<open>2 ^ 32\<close>, and
  re-encoding it into as many limbs gives the limbs back.
\<close>

lemma unat_lt: "unat (x :: BN_ULONG) < 2 ^ 32"
  using unsigned_less [of x] by simp

lemma bn_value_lt: "bn_value xs < 2 ^ (32 * length xs)"
proof (induction xs)
  case Nil
  show ?case by simp
next
  case (Cons x xs)
  have "unat x + 2 ^ 32 * bn_value xs < 2 ^ 32 + 2 ^ 32 * bn_value xs"
    using unat_lt [of x] by simp
  also have "\<dots> = 2 ^ 32 * Suc (bn_value xs)" by simp
  also have "\<dots> \<le> 2 ^ 32 * 2 ^ (32 * length xs)"
    using Cons.IH by (intro mult_le_mono2) simp
  finally show ?case by (simp add: power_add)
qed

lemma bn_value_append:
  "bn_value (xs @ ys) = bn_value xs + 2 ^ (32 * length xs) * bn_value ys"
  by (induction xs) (simp_all add: power_add algebra_simps)

lemma bn_value_sum: "bn_value xs = bn_sum xs"
  unfolding bn_sum_def
proof (induction xs)
  case Nil
  show ?case by simp
next
  case (Cons x xs)
  have "(\<Sum>i<length (x # xs). unat ((x # xs) ! i) * 2 ^ (32 * i))
      = unat x + (\<Sum>i<length xs. unat (xs ! i) * 2 ^ (32 * Suc i))"
    by (simp add: sum.lessThan_Suc_shift del: sum.lessThan_Suc)
  also have "(\<Sum>i<length xs. unat (xs ! i) * 2 ^ (32 * Suc i))
      = 2 ^ 32 * (\<Sum>i<length xs. unat (xs ! i) * 2 ^ (32 * i))"
    by (simp add: sum_distrib_left sum_distrib_right power_add mult_ac)
  finally show ?case using Cons.IH by simp
qed

lemma bn_value_Cons_mod: "bn_value (x # xs) mod 2 ^ 32 = unat x"
  using unat_lt [of x] by simp

lemma bn_value_Cons_div: "bn_value (x # xs) div 2 ^ 32 = bn_value xs"
  using unat_lt [of x] by simp

lemma bn_encode_value: "bn_encode (length xs) (bn_value xs) = xs"
proof (induction xs)
  case Nil
  show ?case by simp
next
  case (Cons x xs)
  have "bn_encode (length (x # xs)) (bn_value (x # xs))
      = of_nat (bn_value (x # xs) mod 2 ^ 32) # bn_encode (length xs) (bn_value (x # xs) div 2 ^ 32)"
    by (simp only: length_Cons bn_encode.simps)
  also have "\<dots> = of_nat (unat x) # bn_encode (length xs) (bn_value xs)"
    by (simp only: bn_value_Cons_mod bn_value_Cons_div)
  also have "\<dots> = x # xs"
    by (simp add: Cons.IH)
  finally show ?case .
qed

lemma length_bn_encode: "length (bn_encode k v) = k"
  by (induction k arbitrary: v) simp_all

lemma bn_value_encode: "bn_value (bn_encode k v) = v mod 2 ^ (32 * k)"
proof (induction k arbitrary: v)
  case 0
  show ?case by simp
next
  case (Suc k)
  have "unat (of_nat (v mod 2 ^ 32) :: BN_ULONG) = v mod 2 ^ 32"
    by (simp add: unat_of_nat)
  then show ?case
    using Suc.IH [of "v div 2 ^ 32"] by (simp add: power_add mod_mult2_eq)
qed

lemma bn_value_snoc:
  "bn_value (xs @ [x]) = bn_value xs + 2 ^ (32 * length xs) * unat x"
  by (simp add: bn_value_append)

lemma bn_value_ge_last:
  assumes "xs \<noteq> []"
  shows "2 ^ (32 * (length xs - 1)) * unat (last xs) \<le> bn_value xs"
proof -
  have "bn_value (butlast xs @ [last xs])
      = bn_value (butlast xs) + 2 ^ (32 * length (butlast xs)) * unat (last xs)"
    by (rule bn_value_snoc)
  with assms show ?thesis by simp
qed

lemma bn_value_limb:
  "i < length xs \<Longrightarrow> bn_value xs div 2 ^ (32 * i) mod 2 ^ 32 = unat (xs ! i)"
proof (induction xs arbitrary: i)
  case Nil
  then show ?case by simp
next
  case (Cons x xs)
  show ?case
  proof (cases i)
    case 0
    then show ?thesis using bn_value_Cons_mod [of x xs] by simp
  next
    case (Suc j)
    have "bn_value (x # xs) div 2 ^ (32 * Suc j)
        = bn_value (x # xs) div 2 ^ 32 div 2 ^ (32 * j)"
      by (simp add: power_add div_mult2_eq)
    also have "\<dots> = bn_value xs div 2 ^ (32 * j)"
      by (simp only: bn_value_Cons_div)
    finally show ?thesis
      using Cons.IH [of j] Cons.prems Suc by simp
  qed
qed

subsection \<open>Bit length and minimal limb count\<close>

text \<open>
  \<open>bit_length v\<close> is the least \<open>k\<close> with \<open>v < 2 ^ k\<close> and \<open>min_limbs v\<close> the
  least \<open>k\<close> with \<open>v < 2 ^ (32 * k)\<close>. A limb sequence whose last limb is not zero
  has the bit length that this limb fixes, and needs every one of its limbs.
\<close>

lemma bit_length_le_iff: "bit_length v \<le> k \<longleftrightarrow> v < 2 ^ k"
proof (induction k arbitrary: v)
  case 0
  show ?case by (subst bit_length.simps) simp
next
  case (Suc k)
  show ?case
    using Suc.IH [of "v div 2"]
    by (subst bit_length.simps) (auto simp: less_mult_imp_div_less div_less_iff_less_mult)
qed

lemma min_limbs_le_iff: "min_limbs v \<le> k \<longleftrightarrow> v < 2 ^ (32 * k)"
proof (induction k arbitrary: v)
  case 0
  show ?case by (subst min_limbs.simps) simp
next
  case (Suc k)
  have "v div 2 ^ 32 < 2 ^ (32 * k) \<longleftrightarrow> v < 2 ^ (32 * k) * 2 ^ 32"
    by (rule div_less_iff_less_mult) simp
  then show ?case
    using Suc.IH [of "v div 2 ^ 32"]
    by (subst min_limbs.simps) (auto simp: power_add)
qed

lemma bit_length_eqI: "2 ^ k \<le> v \<Longrightarrow> v < 2 ^ Suc k \<Longrightarrow> bit_length v = Suc k"
  using bit_length_le_iff [of v k] bit_length_le_iff [of v "Suc k"] by simp

lemma min_limbs_eqI:
  "2 ^ (32 * k) \<le> v \<Longrightarrow> v < 2 ^ (32 * Suc k) \<Longrightarrow> min_limbs v = Suc k"
  using min_limbs_le_iff [of v k] min_limbs_le_iff [of v "Suc k"] by simp

lemma unat_pos: "x \<noteq> 0 \<Longrightarrow> 0 < unat (x :: BN_ULONG)"
  by (simp add: unat_gt_0)

lemma min_limbs_bn_value:
  assumes "xs \<noteq> []" and "last xs \<noteq> 0"
  shows "min_limbs (bn_value xs) = length xs"
proof -
  from assms(1) obtain k where k: "length xs = Suc k"
    by (cases xs) simp_all
  have "2 ^ (32 * k) * 1 \<le> 2 ^ (32 * k) * unat (last xs)"
    using unat_pos [OF assms(2)] by (intro mult_le_mono2) simp
  also have "\<dots> \<le> bn_value xs"
    using bn_value_ge_last [OF assms(1)] k by simp
  finally have lo: "2 ^ (32 * k) \<le> bn_value xs" by simp
  have hi: "bn_value xs < 2 ^ (32 * Suc k)"
    using bn_value_lt [of xs] k by simp
  show ?thesis using min_limbs_eqI [OF lo hi] k by simp
qed

lemma normalized_limbs:
  assumes "xs \<noteq> []" and "last xs \<noteq> 0"
  shows "bn_value xs < 2 ^ (32 * m) \<longleftrightarrow> length xs \<le> m"
  using min_limbs_le_iff [of "bn_value xs" m] min_limbs_bn_value [OF assms] by simp

lemma bit_length_shift:
  assumes "a < 2 ^ k" and "0 < b"
  shows "bit_length (a + 2 ^ k * b) = k + bit_length b"
proof -
  have "\<not> bit_length b \<le> 0"
    using assms(2) bit_length_le_iff [of b 0] by simp
  then obtain j where j: "bit_length b = Suc j"
    by (cases "bit_length b") simp_all
  have "\<not> bit_length b \<le> j" using j by simp
  then have lo_b: "2 ^ j \<le> b" by (simp add: bit_length_le_iff)
  have "bit_length b \<le> Suc j" using j by simp
  then have hi_b: "b < 2 ^ Suc j" by (simp only: bit_length_le_iff)
  have "2 ^ (k + j) = 2 ^ k * (2::nat) ^ j" by (simp add: power_add)
  also have "\<dots> \<le> 2 ^ k * b" using lo_b by (intro mult_le_mono2)
  also have "\<dots> \<le> a + 2 ^ k * b" by simp
  finally have lo: "2 ^ (k + j) \<le> a + 2 ^ k * b" .
  have "a + 2 ^ k * b < 2 ^ k + 2 ^ k * b" using assms(1) by simp
  also have "\<dots> = 2 ^ k * Suc b" by simp
  also have "\<dots> \<le> 2 ^ k * 2 ^ Suc j"
    using hi_b by (intro mult_le_mono2) simp
  also have "\<dots> = 2 ^ Suc (k + j)" by (simp add: power_add)
  finally have hi: "a + 2 ^ k * b < 2 ^ Suc (k + j)" .
  show ?thesis using bit_length_eqI [OF lo hi] j by simp
qed

lemma bit_length_bn_value:
  assumes "xs \<noteq> []" and "last xs \<noteq> 0"
  shows "bit_length (bn_value xs) = 32 * (length xs - 1) + bit_length (unat (last xs))"
proof -
  have "bn_value (butlast xs @ [last xs])
      = bn_value (butlast xs) + 2 ^ (32 * length (butlast xs)) * unat (last xs)"
    by (rule bn_value_snoc)
  then have eq: "bn_value xs
      = bn_value (butlast xs) + 2 ^ (32 * (length xs - 1)) * unat (last xs)"
    using assms(1) by simp
  have "bn_value (butlast xs) < 2 ^ (32 * (length xs - 1))"
    using bn_value_lt [of "butlast xs"] by simp
  from bit_length_shift [OF this unat_pos [OF assms(2)]] eq
  show ?thesis by simp
qed

lemma bit_length_top_limb: "bit_length 0xd6579971 = 32"
proof -
  have "bit_length 0xd6579971 = Suc 31"
    by (rule bit_length_eqI) simp_all
  then show ?thesis by simp
qed

lemma bn_value_n_0_bits: "bit_length (bn_value n_0) = 2048"
  using bit_length_bn_value [of n_0]
  by (simp add: n_0_not_Nil last_n_0 length_n_0 bit_length_top_limb)

section \<open>The claims of the specification\<close>

text \<open>
  Claim C1. For every index \<open>i\<close> with \<open>0 \<le> i < count()\<close>, \<open>get(i)\<close> succeeds and returns
  the key at zero-based position \<open>i\<close> of the declared table; for every index below 0 or
  not below \<open>count()\<close> it fails with \<open>IndexOutOfRange\<close>; and the call leaves the table
  as it was.
\<close>

theorem get_in_range_or_error:
  "(0 \<le> i \<and> i < count keys \<longrightarrow> get keys i = Inr (keys ! nat i)) \<and>
   (i < 0 \<or> i \<ge> count keys \<longrightarrow> get keys i = Inl IndexOutOfRange) \<and>
   snd (step (Get i) keys) = keys"
  by (simp add: get_def)

theorem get_in_range_or_error_witness:
  "(0::int) \<le> 0 \<and> 0 < count keys \<and> get keys 0 = Inr (keys ! nat 0) \<and>
   (1::int) \<ge> count keys \<and> get keys 1 = Inl IndexOutOfRange \<and>
   (-1::int) < 0 \<and> get keys (-1) = Inl IndexOutOfRange"
  using get_in_range_or_error [of 0] get_in_range_or_error [of 1]
    get_in_range_or_error [of "-1"]
  by (simp add: count_def keys_def)

text \<open>
  Claim C2. For every BigNumber of the table, decoding its limbs by the sum
  \<open>limbs[i] * 2^(32*i)\<close> and re-encoding the integer with 32-bit limbs, the same limb
  count (the stored \<open>top\<close>, which is the length) and the same order gives the limbs
  back, and these are the constants as the file writes them.
\<close>

theorem limbs_round_trip:
  "\<forall>k \<in> set keys. \<forall>b \<in> {e k, n k}.
     bn_encode (length (d b)) (bn_sum (d b)) = d b \<and>
     bn_encode (nat (top_bn b)) (bn_sum (d b)) = d b \<and>
     map unat (bn_encode (nat (top_bn b)) (bn_sum (d b))) \<in> {e_0_init, n_0_init}"
proof (intro ballI)
  fix k b assume "k \<in> set keys" and "b \<in> {e k, n k}"
  then have b: "b = KEY e_0 \<or> b = KEY n_0" by (rule keys_bignums)
  have rt: "bn_encode (length (d b)) (bn_sum (d b)) = d b"
    by (simp only: bn_value_sum [symmetric] bn_encode_value)
  have tp: "nat (top_bn b) = length (d b)"
    using b by (auto simp: d_KEY top_KEY)
  have lit: "map unat (d b) \<in> {e_0_init, n_0_init}"
    using b by (auto simp: d_KEY e_0_unat n_0_limbs)
  from rt tp lit
  show "bn_encode (length (d b)) (bn_sum (d b)) = d b \<and>
     bn_encode (nat (top_bn b)) (bn_sum (d b)) = d b \<and>
     map unat (bn_encode (nat (top_bn b)) (bn_sum (d b))) \<in> {e_0_init, n_0_init}"
    by simp
qed

theorem limbs_round_trip_witness:
  "keys ! 0 \<in> set keys \<and>
   bn_encode (length e_0) (bn_sum e_0) = e_0 \<and>
   bn_encode (length n_0) (bn_sum n_0) = n_0 \<and>
   length e_0 = 1 \<and> length n_0 = 64"
  using limbs_round_trip
  by (simp add: keys_def KEYS_def d_KEY e_0_limbs length_n_0)

text \<open>
  Claim C3. The key table holds exactly one entry: \<open>count()\<close> is 1, \<open>get(0)\<close> returns
  that entry, and \<open>get(1)\<close> fails with \<open>IndexOutOfRange\<close>.
\<close>

theorem single_entry_table:
  "count keys = 1 \<and> get keys 0 = Inr (KEYS e_0 n_0) \<and>
   get keys 1 = Inl IndexOutOfRange \<and> keys = [KEYS e_0 n_0]"
  by (simp add: count_def get_def keys_def)

text \<open>
  Claim C4. The exponent of the single entry has the one-limb sequence \<open>[0x00010001]\<close>,
  and its value as a little-endian base-\<open>2 ^ 32\<close> integer is 65537.
\<close>

theorem exponent_is_65537:
  "d (e (keys ! 0)) = [0x00010001] \<and>
   top_bn (e (keys ! 0)) = 1 \<and>
   bn_sum (d (e (keys ! 0))) = 65537"
  by (simp add: keys_entry d_KEY top_KEY e_0_limbs bn_value_sum [symmetric])

text \<open>
  Claim C5. The modulus of the single entry has exactly 64 limbs, its value has bit
  length exactly 2048, and this bit length is the one fixed by the most significant
  limb \<open>0xd6579971\<close>, which is not zero: 32 bits for each of the 63 limbs below it, plus
  its own bit length.
\<close>

theorem modulus_bit_length:
  "length (d (n (keys ! 0))) = 64 \<and>
   top_bn (n (keys ! 0)) = 64 \<and>
   last (d (n (keys ! 0))) = 0xd6579971 \<and>
   bit_length (bn_sum (d (n (keys ! 0)))) = 2048 \<and>
   bit_length (bn_sum (d (n (keys ! 0))))
     = 32 * 63 + bit_length (unat (last (d (n (keys ! 0)))))"
  by (simp add: keys_entry d_KEY top_KEY length_n_0 last_n_0 bit_length_top_limb
      bn_value_n_0_bits bn_value_sum [symmetric])

text \<open>
  Claim C6. For every BigNumber of the table the stored limb count \<open>top\<close> equals the
  length of the limb sequence and the sequence is not empty; hence for every valid index
  \<open>i\<close>, \<open>get(i)\<close> returns a key whose exponent and modulus both have limbs.
\<close>

theorem limb_count_invariant:
  "(\<forall>k \<in> set keys. \<forall>b \<in> {e k, n k}.
      top_bn b = int (length (d b)) \<and> d b \<noteq> []) \<and>
   (\<forall>i. 0 \<le> i \<and> i < count keys \<longrightarrow>
      (\<exists>k. get keys i = Inr k \<and> d (e k) \<noteq> [] \<and> d (n k) \<noteq> []))"
  by (auto simp: keys_def KEYS_def d_KEY top_KEY e_0_limbs n_0_not_Nil get_def count_def)

theorem limb_count_invariant_witness:
  "keys ! 0 \<in> set keys \<and>
   top_bn (e (keys ! 0)) = 1 \<and> length (d (e (keys ! 0))) = 1 \<and>
   top_bn (n (keys ! 0)) = 64 \<and> length (d (n (keys ! 0))) = 64 \<and>
   (0::int) < count keys \<and>
   (\<exists>k. get keys 0 = Inr k \<and> d (e k) \<noteq> [] \<and> d (n k) \<noteq> [])"
  using limb_count_invariant
  by (auto simp: keys_def KEYS_def d_KEY top_KEY e_0_limbs length_n_0 count_def)

text \<open>
  Claim C7. The table keeps the declared order and pairing: the entry at position 0 has
  as exponent the BigNumber built from \<open>e_0\<close> and as modulus the BigNumber built from
  \<open>n_0\<close>, and not the other way round.
\<close>

theorem declared_order:
  "keys = [KEYS e_0 n_0] \<and>
   e (keys ! 0) = KEY e_0 \<and> n (keys ! 0) = KEY n_0 \<and>
   d (e (keys ! 0)) = e_0 \<and> d (n (keys ! 0)) = n_0 \<and>
   keys ! 0 \<noteq> KEYS n_0 e_0"
  using e_0_ne_n_0 by (auto simp: keys_def KEYS_def d_KEY dest: arg_cong [where f = d])

text \<open>
  Claim C9. Every limb of every BigNumber of the table is an unsigned 32-bit value: every
  constant of \<open>e_0\<close> and \<open>n_0\<close> is below \<open>2 ^ 32\<close>, so storing it in a limb changes
  nothing; and the limbs are stored least-significant first, limb \<open>i\<close> being digit \<open>i\<close>
  of the value in base \<open>2 ^ 32\<close>.
\<close>

theorem limbs_32_bit:
  "(\<forall>c \<in> set e_0_init \<union> set n_0_init. c < 2 ^ 32) \<and>
   map unat e_0 = e_0_init \<and> map unat n_0 = n_0_init \<and>
   (\<forall>k \<in> set keys. \<forall>b \<in> {e k, n k}.
      (\<forall>x \<in> set (d b). unat x < 2 ^ 32) \<and>
      (\<forall>i < length (d b). bn_sum (d b) div 2 ^ (32 * i) mod 2 ^ 32 = unat (d b ! i)))"
proof (intro conjI ballI allI impI)
  fix c assume "c \<in> set e_0_init \<union> set n_0_init"
  then show "c < 2 ^ 32" by (rule init_bounds)
next
  show "map unat e_0 = e_0_init" by (rule e_0_unat)
next
  show "map unat n_0 = n_0_init" by (rule n_0_limbs)
next
  fix x :: BN_ULONG
  show "unat x < 2 ^ 32" by (rule unat_lt)
next
  fix b :: bignum_st and i
  assume "i < length (d b)"
  then show "bn_sum (d b) div 2 ^ (32 * i) mod 2 ^ 32 = unat (d b ! i)"
    by (simp only: bn_value_sum [symmetric] bn_value_limb)
qed

theorem limbs_32_bit_witness:
  "(0xd6579971::nat) \<in> set e_0_init \<union> set n_0_init \<and> (0xd6579971::nat) < 2 ^ 32 \<and>
   keys ! 0 \<in> set keys \<and> n (keys ! 0) \<in> {e (keys ! 0), n (keys ! 0)} \<and>
   d (n (keys ! 0)) = n_0 \<and> (63::nat) < length n_0 \<and>
   n_0 ! 63 \<in> set n_0 \<and> unat (n_0 ! 63) < 2 ^ 32 \<and>
   bn_sum n_0 div 2 ^ (32 * 63) mod 2 ^ 32 = 0xd6579971 \<and>
   bn_sum n_0 div 2 ^ (32 * 0) mod 2 ^ 32 = 0x16a0d8e1"
proof -
  have k: "keys ! 0 \<in> set keys" by (simp add: keys_def)
  have b: "n (keys ! 0) \<in> {e (keys ! 0), n (keys ! 0)}" by simp
  have dn: "d (n (keys ! 0)) = n_0" by (simp add: keys_entry d_KEY)
  have c: "(0xd6579971::nat) \<in> set e_0_init \<union> set n_0_init"
    by (simp add: n_0_init_def)
  have l63: "(63::nat) < length n_0" and l0: "(0::nat) < length n_0"
    by (simp_all add: length_n_0)
  have n63: "n_0 ! 63 = 0xd6579971"
    using last_conv_nth [OF n_0_not_Nil] by (simp add: length_n_0 last_n_0)
  have n0: "n_0 ! 0 = 0x16a0d8e1"
    using hd_conv_nth [OF n_0_not_Nil] by (simp add: hd_n_0)
  from limbs_32_bit have bound: "\<forall>c \<in> set e_0_init \<union> set n_0_init. c < 2 ^ 32"
    and tbl: "\<forall>k \<in> set keys. \<forall>b \<in> {e k, n k}.
      (\<forall>x \<in> set (d b). unat x < 2 ^ 32) \<and>
      (\<forall>i < length (d b). bn_sum (d b) div 2 ^ (32 * i) mod 2 ^ 32 = unat (d b ! i))"
    by blast+
  from bound c have c32: "(0xd6579971::nat) < 2 ^ 32" by blast
  from tbl k b have
    at: "(\<forall>x \<in> set n_0. unat x < 2 ^ 32) \<and>
      (\<forall>i < length n_0. bn_sum n_0 div 2 ^ (32 * i) mod 2 ^ 32 = unat (n_0 ! i))"
    unfolding dn [symmetric] by blast
  have mem: "n_0 ! 63 \<in> set n_0" using l63 by (rule nth_mem)
  with at have u: "unat (n_0 ! 63) < 2 ^ 32" by blast
  from at l63 have hi: "bn_sum n_0 div 2 ^ (32 * 63) mod 2 ^ 32 = unat (n_0 ! 63)" by blast
  from at l0 have lo: "bn_sum n_0 div 2 ^ (32 * 0) mod 2 ^ 32 = unat (n_0 ! 0)" by blast
  have hi': "bn_sum n_0 div 2 ^ (32 * 63) mod 2 ^ 32 = 0xd6579971"
    unfolding hi n63 by simp
  have lo': "bn_sum n_0 div 2 ^ (32 * 0) mod 2 ^ 32 = 0x16a0d8e1"
    unfolding lo n0 by simp
  from c c32 k b dn l63 mem u hi' lo' show ?thesis by blast
qed

text \<open>
  Claim C10. For every BigNumber of the table the last (most significant) limb is not
  zero (\<open>0x00010001\<close> for \<open>e_0\<close>, \<open>0xd6579971\<close> for \<open>n_0\<close>), so the representation is
  normalized: the stored limb count is the least number of 32-bit limbs that hold the
  value.
\<close>

theorem limbs_normalized:
  "\<forall>k \<in> set keys. \<forall>b \<in> {e k, n k}.
     last (d b) \<noteq> 0 \<and> last (d b) \<in> {0x00010001, 0xd6579971} \<and>
     top_bn b = int (min_limbs (bn_sum (d b))) \<and>
     (\<forall>m. bn_sum (d b) < 2 ^ (32 * m) \<longleftrightarrow> nat (top_bn b) \<le> m)"
proof (intro ballI)
  fix k b assume "k \<in> set keys" and "b \<in> {e k, n k}"
  then have "b = KEY e_0 \<or> b = KEY n_0" by (rule keys_bignums)
  then have nz: "d b \<noteq> [] \<and> last (d b) \<noteq> 0"
    and lst: "last (d b) \<in> {0x00010001, 0xd6579971}"
    by (auto simp: d_KEY last_e_0 last_n_0 e_0_not_Nil n_0_not_Nil)
  have tp: "top_bn b = int (length (d b))"
    using \<open>b = KEY e_0 \<or> b = KEY n_0\<close> by (auto simp: d_KEY top_KEY)
  have ml: "min_limbs (bn_sum (d b)) = length (d b)"
    using nz min_limbs_bn_value [of "d b"] by (simp add: bn_value_sum [symmetric])
  have iff: "bn_sum (d b) < 2 ^ (32 * m) \<longleftrightarrow> nat (top_bn b) \<le> m" for m
    using nz normalized_limbs [of "d b" m] by (simp add: tp bn_value_sum [symmetric])
  from nz lst tp ml iff
  show "last (d b) \<noteq> 0 \<and> last (d b) \<in> {0x00010001, 0xd6579971} \<and>
     top_bn b = int (min_limbs (bn_sum (d b))) \<and>
     (\<forall>m. bn_sum (d b) < 2 ^ (32 * m) \<longleftrightarrow> nat (top_bn b) \<le> m)"
    by simp
qed

theorem limbs_normalized_witness:
  "keys ! 0 \<in> set keys \<and>
   last e_0 = 0x00010001 \<and> last n_0 = 0xd6579971 \<and>
   min_limbs (bn_sum e_0) = 1 \<and> min_limbs (bn_sum n_0) = 64 \<and>
   bn_sum n_0 < 2 ^ (32 * 64) \<and> \<not> bn_sum n_0 < 2 ^ (32 * 63)"
proof -
  have k: "keys ! 0 \<in> set keys" by (simp add: keys_def)
  have ee: "d (e (keys ! 0)) = e_0" and te: "top_bn (e (keys ! 0)) = 1"
    by (simp_all add: keys_entry d_KEY top_KEY e_0_limbs)
  have nn: "d (n (keys ! 0)) = n_0" and tn: "top_bn (n (keys ! 0)) = 64"
    by (simp_all add: keys_entry d_KEY top_KEY length_n_0)
  from limbs_normalized k
  have all: "\<forall>b \<in> {e (keys ! 0), n (keys ! 0)}.
     last (d b) \<noteq> 0 \<and> last (d b) \<in> {0x00010001, 0xd6579971} \<and>
     top_bn b = int (min_limbs (bn_sum (d b))) \<and>
     (\<forall>m. bn_sum (d b) < 2 ^ (32 * m) \<longleftrightarrow> nat (top_bn b) \<le> m)"
    by blast
  then have "top_bn (e (keys ! 0)) = int (min_limbs (bn_sum (d (e (keys ! 0)))))"
    by blast
  then have m1: "min_limbs (bn_sum e_0) = 1" by (simp add: ee te)
  from all have "top_bn (n (keys ! 0)) = int (min_limbs (bn_sum (d (n (keys ! 0)))))"
    by blast
  then have m64: "min_limbs (bn_sum n_0) = 64" by (simp add: nn tn)
  from all have "\<forall>m. bn_sum (d (n (keys ! 0))) < 2 ^ (32 * m) \<longleftrightarrow> nat (top_bn (n (keys ! 0))) \<le> m"
    by blast
  then have iff: "bn_sum n_0 < 2 ^ (32 * m) \<longleftrightarrow> 64 \<le> m" for m
    by (simp add: nn tn)
  have lt: "bn_sum n_0 < 2 ^ (32 * 64)" using iff [of 64] by simp
  have ge: "\<not> bn_sum n_0 < 2 ^ (32 * 63)" using iff [of 63] by simp
  from k last_e_0 last_n_0 m1 m64 lt ge show ?thesis by blast
qed

end
